theory Spec2Isabelle
  imports Complex_Main
begin

section \<open>JavaScript numbers\<close>

text \<open>
  A JavaScript number is a double. The model keeps the three special values apart and
  takes a finite number as the real it denotes; rounding plays no part in what follows
  (the code only floors, takes a maximum and compares), \<open>NaN\<close> does.
\<close>

datatype jsnum = NaN | NegInf | Fin real | PosInf

text \<open>\<^verbatim>\<open>a >= b\<close> on numbers: false as soon as one side is \<open>NaN\<close>.\<close>

fun js_ge :: "jsnum \<Rightarrow> jsnum \<Rightarrow> bool" where
  "js_ge NaN _ = False"
| "js_ge _ NaN = False"
| "js_ge PosInf _ = True"
| "js_ge _ NegInf = True"
| "js_ge NegInf _ = False"
| "js_ge _ PosInf = False"
| "js_ge (Fin a) (Fin b) = (b \<le> a)"

text \<open>\<^verbatim>\<open>Math.max(a, b)\<close>: \<open>NaN\<close> as soon as one argument is \<open>NaN\<close>.\<close>

fun js_max :: "jsnum \<Rightarrow> jsnum \<Rightarrow> jsnum" where
  "js_max NaN _ = NaN"
| "js_max _ NaN = NaN"
| "js_max a b = (if js_ge a b then a else b)"

text \<open>\<^verbatim>\<open>Math.floor(a)\<close>.\<close>

fun js_floor :: "jsnum \<Rightarrow> jsnum" where
  "js_floor (Fin a) = Fin (of_int \<lfloor>a\<rfloor>)"
| "js_floor a = a"

section \<open>rate-limit.ts\<close>

text \<open>
  \<^verbatim>\<open>class RateLimiter\<close>: the accepted timestamps, oldest first, and the capacity.
  A timestamp is a reading of \<^verbatim>\<open>Date.now()\<close>, a whole number of milliseconds: an
  \<open>int\<close> here, which is what the double of the code holds below \<open>2 ^ 53\<close>, where its
  subtraction and comparison are exact. A \<open>now\<close> that is no whole number, or \<open>NaN\<close>, is
  outside the model; room.ts never passes one.
\<close>

record RateLimiter =
  timestamps :: "int list"
  maxMessages :: jsnum

definition windowMs :: int where
  "windowMs = 1000"

text \<open>\<^verbatim>\<open>constructor(maxMessagesPerSecond)\<close>.\<close>

definition RateLimiter_new :: "jsnum \<Rightarrow> RateLimiter" where
  "RateLimiter_new maxMessagesPerSecond =
     \<lparr>timestamps = [], maxMessages = js_max (Fin 1) (js_floor maxMessagesPerSecond)\<rparr>"

text \<open>
  The loop \<^verbatim>\<open>while (timestamps.length > 0 && timestamps[0] < cutoff) timestamps.shift()\<close>.
\<close>

fun evict :: "int \<Rightarrow> int list \<Rightarrow> int list" where
  "evict cutoff [] = []"
| "evict cutoff (t # ts) = (if t < cutoff then evict cutoff ts else t # ts)"

text \<open>\<^verbatim>\<open>allow(now)\<close>: the answer and the limiter as the call leaves it.\<close>

definition allow :: "int \<Rightarrow> RateLimiter \<Rightarrow> bool \<times> RateLimiter" where
  "allow now rl =
     (let cutoff = now - windowMs;
          ts = evict cutoff (timestamps rl)
      in if js_ge (Fin (of_nat (length ts))) (maxMessages rl)
         then (False, rl\<lparr>timestamps := ts\<rparr>)
         else (True, rl\<lparr>timestamps := ts @ [now]\<rparr>))"

text \<open>A sequence of calls on one limiter: the answers in order, and the limiter left.\<close>

fun allow_all :: "RateLimiter \<Rightarrow> int list \<Rightarrow> bool list \<times> RateLimiter" where
  "allow_all rl [] = ([], rl)"
| "allow_all rl (now # nows) =
     (let (b, rl') = allow now rl; (bs, rl'') = allow_all rl' nows in (b # bs, rl''))"

text \<open>
  A limiter is within capacity when its capacity is a whole number, or infinite, and no more
  timestamps than that are kept.
\<close>

definition within_capacity :: "RateLimiter \<Rightarrow> bool" where
  "within_capacity rl =
     (case maxMessages rl of
        Fin c \<Rightarrow> c = of_int \<lfloor>c\<rfloor> \<and> of_nat (length (timestamps rl)) \<le> c
      | PosInf \<Rightarrow> True
      | _ \<Rightarrow> False)"

section \<open>Decoded messages\<close>

text \<open>
  What \<^verbatim>\<open>decodeMessage\<close> hands back: a value of MessagePack or JSON. \<open>JBin\<close> is a
  \<^verbatim>\<open>Uint8Array\<close> (a MessagePack bin), an object that is no array and has no property
  of its own; \<open>JObj\<close> lists the properties of a plain object, the first entry of a key is
  the one read.
\<close>

datatype jsval =
    JUndefined
  | JNull
  | JBool bool
  | JNum jsnum
  | JStr string
  | JBin "nat list"
  | JArr "jsval list"
  | JObj "(string \<times> jsval) list"

text \<open>\<^verbatim>\<open>isObject\<close> of protocol.ts: \<^verbatim>\<open>typeof value === "object" && value !== null\<close>.\<close>

fun isObject :: "jsval \<Rightarrow> bool" where
  "isObject (JBin _) = True"
| "isObject (JArr _) = True"
| "isObject (JObj _) = True"
| "isObject _ = False"

fun isArray :: "jsval \<Rightarrow> bool" where
  "isArray (JArr _) = True"
| "isArray _ = False"

text \<open>Reading a property, \<^verbatim>\<open>decoded.type\<close>: \<^verbatim>\<open>undefined\<close> where there is none.\<close>

fun getProp :: "jsval \<Rightarrow> string \<Rightarrow> jsval" where
  "getProp (JObj kvs) k = (case map_of kvs k of Some v \<Rightarrow> v | None \<Rightarrow> JUndefined)"
| "getProp _ k = JUndefined"

section \<open>protocol.ts\<close>

type_synonym PlayerId = string

definition PROTOCOL_VERSION :: jsnum where
  "PROTOCOL_VERSION = Fin 1"

definition RATE_LIMITED :: string where
  "RATE_LIMITED = ''RATE_LIMITED''"

definition ROOM_FULL :: string where
  "ROOM_FULL = ''ROOM_FULL''"

definition INVALID_MESSAGE :: string where
  "INVALID_MESSAGE = ''INVALID_MESSAGE''"

definition BAD_PROTOCOL :: string where
  "BAD_PROTOCOL = ''BAD_PROTOCOL''"

text \<open>
  The text of an error frame. The template literal
  \<^verbatim>\<open>`Protocol mismatch. Server=${PROTOCOL_VERSION}, Client=${clientVersion}`\<close> is kept as
  the two numbers it prints.
\<close>

datatype errtext = Plain string | ProtocolMismatch jsnum jsnum

text \<open>\<^verbatim>\<open>ServerMessage\<close>: the six frames the server sends.\<close>

datatype ServerMessage =
    Welcome jsnum PlayerId "PlayerId list"
  | PeerJoined PlayerId
  | PeerLeft PlayerId
  | Relay PlayerId jsval
  | Pong string int
  | Error string errtext

section \<open>The Map of JavaScript\<close>

text \<open>
  A \<^verbatim>\<open>Map\<close> keeps its entries in insertion order: \<^verbatim>\<open>set\<close> on a key it holds replaces
  the value where the entry stands, \<^verbatim>\<open>set\<close> on a new key appends.
\<close>

type_synonym ('k, 'v) Map = "('k \<times> 'v) list"

primrec Map_set :: "'k \<Rightarrow> 'v \<Rightarrow> ('k, 'v) Map \<Rightarrow> ('k, 'v) Map" where
  "Map_set k v [] = [(k, v)]"
| "Map_set k v (e # es) = (if fst e = k then (k, v) # es else e # Map_set k v es)"

primrec Map_delete :: "'k \<Rightarrow> ('k, 'v) Map \<Rightarrow> ('k, 'v) Map" where
  "Map_delete k [] = []"
| "Map_delete k (e # es) = (if fst e = k then Map_delete k es else e # Map_delete k es)"

definition Map_get :: "('k, 'v) Map \<Rightarrow> 'k \<Rightarrow> 'v option" where
  "Map_get m k = map_of m k"

definition Map_values :: "('k, 'v) Map \<Rightarrow> 'v list" where
  "Map_values m = map snd m"

definition Map_size :: "('k, 'v) Map \<Rightarrow> nat" where
  "Map_size m = length m"

section \<open>room.ts\<close>

text \<open>A \<^verbatim>\<open>WebSocket\<close> is an object: the model keeps its identity, a number.\<close>

type_synonym WebSocket = nat

record Env =
  ALLOWED_ORIGINS :: "string option"
  MAX_MESSAGES_PER_SECOND :: "string option"
  MAX_PLAYERS_PER_ROOM :: "string option"

record PlayerConnection =
  playerId :: PlayerId
  webSocket :: WebSocket
  rateLimiter :: RateLimiter
  joinedAt :: int

record GameRoom =
  connections :: "(PlayerId, PlayerConnection) Map"
  wsToPlayer :: "(WebSocket, PlayerId) Map"
  allowedOrigins :: "string list"
  maxMessagesPerSecond :: jsnum
  maxPlayersPerRoom :: jsnum

text \<open>
  What a handler does to the world outside the room, in the order it does it:
  \<^verbatim>\<open>state.acceptWebSocket\<close>, \<^verbatim>\<open>ws.serializeAttachment\<close>, \<^verbatim>\<open>send\<close> (which swallows
  a failure of \<^verbatim>\<open>ws.send\<close>) and \<^verbatim>\<open>ws.close\<close>.
\<close>

datatype effect =
    Accept WebSocket
  | Attach WebSocket PlayerId
  | Send WebSocket ServerMessage
  | Close WebSocket nat string

fun target :: "effect \<Rightarrow> WebSocket" where
  "target (Accept ws) = ws"
| "target (Attach ws _) = ws"
| "target (Send ws _) = ws"
| "target (Close ws _ _) = ws"

text \<open>\<^verbatim>\<open>error(code, message)\<close>.\<close>

definition error :: "string \<Rightarrow> errtext \<Rightarrow> ServerMessage" where
  "error code message = Error code message"

subsection \<open>The constructor\<close>

text \<open>\<^verbatim>\<open>s.split(",")\<close>.\<close>

primrec split_comma :: "string \<Rightarrow> string list" where
  "split_comma [] = [[]]"
| "split_comma (c # cs) =
     (if c = CHR '','' then [] # split_comma cs
      else (case split_comma cs of [] \<Rightarrow> [[c]] | w # ws \<Rightarrow> (c # w) # ws))"

text \<open>
  \<^verbatim>\<open>s.trim()\<close>, on the white space of ASCII: tab, line feed, vertical tab, form feed,
  carriage return and space. The code also strips the white space beyond ASCII (U+00A0,
  U+FEFF and the other space separators), which a string of bytes does not tell apart;
  the allow-list of an \<^verbatim>\<open>ALLOWED_ORIGINS\<close> with such characters is outside the model,
  and nothing below is proved about how the list is parsed.
\<close>

definition is_space :: "char \<Rightarrow> bool" where
  "is_space c = (c \<in> set [CHR 0x09, CHR 0x0A, CHR 0x0B, CHR 0x0C, CHR 0x0D, CHR '' ''])"

definition trim :: "string \<Rightarrow> string" where
  "trim s = rev (dropWhile is_space (rev (dropWhile is_space s)))"

text \<open>
  \<^verbatim>\<open>(env.ALLOWED_ORIGINS ?? "http://localhost:3000").split(",").map(trim).filter(Boolean)\<close>,
  the members of the set in the order they are added.
\<close>

definition parseOrigins :: "string option \<Rightarrow> string list" where
  "parseOrigins v =
     filter (\<lambda>s. s \<noteq> [])
       (map trim (split_comma (case v of None \<Rightarrow> ''http://localhost:3000'' | Some s \<Rightarrow> s)))"

text \<open>
  \<^verbatim>\<open>Math.max(1, Number(v ?? dflt))\<close>. \<open>toNumber\<close> is \<^verbatim>\<open>Number\<close> on a string, the
  conversion of the language, taken as it comes.
\<close>

definition envLimit :: "(string \<Rightarrow> jsnum) \<Rightarrow> string option \<Rightarrow> real \<Rightarrow> jsnum" where
  "envLimit toNumber v dflt =
     js_max (Fin 1) (case v of None \<Rightarrow> Fin dflt | Some s \<Rightarrow> toNumber s)"

text \<open>
  The callback of \<^verbatim>\<open>state.getWebSockets().forEach\<close>: one retained socket, the playerId
  its attachment carries (\<open>None\<close> for a null attachment) and the clock as \<^verbatim>\<open>nowMs()\<close>
  reads it there. \<^verbatim>\<open>!attachment?.playerId\<close> also holds of the empty string.
\<close>

definition restoreSocket ::
  "GameRoom \<Rightarrow> WebSocket \<times> PlayerId option \<times> int \<Rightarrow> GameRoom" where
  "restoreSocket room r =
     (case r of (ws, attachment, now) \<Rightarrow>
        (case attachment of
           None \<Rightarrow> room
         | Some pid \<Rightarrow>
             if pid = [] then room
             else
               let conn = \<lparr>playerId = pid, webSocket = ws,
                           rateLimiter = RateLimiter_new (maxMessagesPerSecond room),
                           joinedAt = now\<rparr>
               in room\<lparr>connections := Map_set (playerId conn) conn (connections room),
                       wsToPlayer := Map_set ws (playerId conn) (wsToPlayer room)\<rparr>))"

definition GameRoom_new ::
  "(string \<Rightarrow> jsnum) \<Rightarrow> Env \<Rightarrow> (WebSocket \<times> PlayerId option \<times> int) list \<Rightarrow> GameRoom" where
  "GameRoom_new toNumber env sockets =
     foldl restoreSocket
       \<lparr>connections = [], wsToPlayer = [],
        allowedOrigins = parseOrigins (ALLOWED_ORIGINS env),
        maxMessagesPerSecond = envLimit toNumber (MAX_MESSAGES_PER_SECOND env) 60,
        maxPlayersPerRoom = envLimit toNumber (MAX_PLAYERS_PER_ROOM env) 20\<rparr>
       sockets"

subsection \<open>broadcast\<close>

text \<open>
  \<^verbatim>\<open>if (excludePlayerId && conn.playerId === excludePlayerId) continue\<close>: the empty
  string excludes nobody.
\<close>

definition excluded :: "PlayerId option \<Rightarrow> PlayerConnection \<Rightarrow> bool" where
  "excluded excludePlayerId conn =
     (case excludePlayerId of None \<Rightarrow> False | Some e \<Rightarrow> e \<noteq> [] \<and> playerId conn = e)"

definition broadcast :: "GameRoom \<Rightarrow> PlayerId option \<Rightarrow> ServerMessage \<Rightarrow> effect list" where
  "broadcast room excludePlayerId message =
     map (\<lambda>conn. Send (webSocket conn) message)
       (filter (\<lambda>conn. \<not> excluded excludePlayerId conn) (Map_values (connections room)))"

subsection \<open>fetch\<close>

record Request =
  Upgrade :: "string option"
  Origin :: "string option"

record Response =
  status :: nat
  body :: "string option"
  clientSocket :: "WebSocket option"

text \<open>\<^verbatim>\<open>s.toLowerCase()\<close> on the letters of ASCII, which a header value is made of.\<close>

definition toLowerCase :: "string \<Rightarrow> string" where
  "toLowerCase s =
     map (\<lambda>c. case map_of (zip ''ABCDEFGHIJKLMNOPQRSTUVWXYZ'' ''abcdefghijklmnopqrstuvwxyz'') c of
                 Some l \<Rightarrow> l | None \<Rightarrow> c) s"

text \<open>
  \<^verbatim>\<open>fetch(request)\<close>. The world gives \<open>client\<close> and \<open>server\<close>, the two ends of
  \<^verbatim>\<open>new WebSocketPair()\<close>, \<open>newId\<close>, what \<^verbatim>\<open>crypto.randomUUID()\<close> returns in
  \<^verbatim>\<open>makePlayerId\<close>, and \<open>now\<close>, the clock of \<^verbatim>\<open>nowMs()\<close>.
\<close>

definition fetch ::
  "GameRoom \<Rightarrow> Request \<Rightarrow> WebSocket \<Rightarrow> WebSocket \<Rightarrow> PlayerId \<Rightarrow> int
     \<Rightarrow> GameRoom \<times> Response \<times> effect list" where
  "fetch room request client server newId now =
     (if (case Upgrade request of None \<Rightarrow> True
          | Some u \<Rightarrow> u = [] \<or> toLowerCase u \<noteq> ''websocket'')
      then (room, \<lparr>status = 426, body = Some ''Expected WebSocket upgrade'',
                   clientSocket = None\<rparr>, [])
      else if (case Origin request of None \<Rightarrow> False
               | Some origin \<Rightarrow> origin \<noteq> [] \<and> origin \<notin> set (allowedOrigins room))
      then (room, \<lparr>status = 403, body = Some ''Origin not allowed'', clientSocket = None\<rparr>, [])
      else if js_ge (Fin (of_nat (Map_size (connections room)))) (maxPlayersPerRoom room)
      then (room, \<lparr>status = 503, body = Some ''Room is full'', clientSocket = None\<rparr>, [])
      else
        let conn = \<lparr>playerId = newId, webSocket = server,
                    rateLimiter = RateLimiter_new (maxMessagesPerSecond room),
                    joinedAt = now\<rparr>;
            peers = map playerId (Map_values (connections room));
            room' = room\<lparr>connections := Map_set newId conn (connections room),
                         wsToPlayer := Map_set server newId (wsToPlayer room)\<rparr>
        in (room', \<lparr>status = 101, body = None, clientSocket = Some client\<rparr>,
            [Accept server, Attach server newId,
             Send server (Welcome PROTOCOL_VERSION newId peers)]
            @ broadcast room' (Some newId) (PeerJoined newId)))"

subsection \<open>webSocketMessage\<close>

text \<open>
  \<^verbatim>\<open>decoded.type === "ping" && typeof decoded.nonce === "string"\<close>, with the nonce
  when it holds.
\<close>

definition pingNonce :: "jsval \<Rightarrow> string option" where
  "pingNonce decoded =
     (if getProp decoded ''type'' = JStr ''ping''
      then (case getProp decoded ''nonce'' of JStr nonce \<Rightarrow> Some nonce | _ \<Rightarrow> None)
      else None)"

text \<open>
  \<^verbatim>\<open>webSocketMessage(ws, message)\<close>. \<open>decoded\<close> is \<^verbatim>\<open>decodeMessage(message)\<close>, the
  codec's answer (\<open>JNull\<close> when it fails); \<open>now\<close> is the clock \<^verbatim>\<open>allow()\<close> reads and
  \<open>serverTime\<close> the one a pong reads. The limiter of the entry is an object the call
  changes in place, so the entry is written back.
\<close>

definition webSocketMessage ::
  "GameRoom \<Rightarrow> WebSocket \<Rightarrow> jsval \<Rightarrow> int \<Rightarrow> int \<Rightarrow> GameRoom \<times> effect list" where
  "webSocketMessage room ws decoded now serverTime =
     (case Map_get (wsToPlayer room) ws of
        None \<Rightarrow> (room, [])
      | Some pid \<Rightarrow>
          if pid = [] then (room, [])
          else
            (case Map_get (connections room) pid of
               None \<Rightarrow> (room, [])
             | Some conn \<Rightarrow>
                 let (ok, rl) = allow now (rateLimiter conn);
                     room' = room\<lparr>connections :=
                               Map_set pid (conn\<lparr>rateLimiter := rl\<rparr>) (connections room)\<rparr>
                 in if \<not> ok
                    then (room', [Send ws (error RATE_LIMITED (Plain ''Rate limited''))])
                    else if \<not> isObject decoded \<or> isArray decoded
                    then (room',
                          [Send ws (error INVALID_MESSAGE (Plain ''Invalid message format''))])
                    else if getProp decoded ''type'' = JStr ''hello''
                    then (room',
                          (case getProp decoded ''protocolVersion'' of
                             JNum clientVersion \<Rightarrow>
                               if clientVersion \<noteq> PROTOCOL_VERSION
                               then [Send ws (error BAD_PROTOCOL
                                       (ProtocolMismatch PROTOCOL_VERSION clientVersion)),
                                     Close ws 1008 ''BAD_PROTOCOL'']
                               else []
                           | _ \<Rightarrow> []))
                    else
                      (case pingNonce decoded of
                         Some nonce \<Rightarrow> (room', [Send ws (Pong nonce serverTime)])
                       | None \<Rightarrow> (room', broadcast room' (Some pid) (Relay pid decoded)))))"

subsection \<open>handleDisconnect\<close>

text \<open>\<^verbatim>\<open>webSocketClose\<close> and \<^verbatim>\<open>webSocketError\<close> both call it.\<close>

definition handleDisconnect :: "GameRoom \<Rightarrow> WebSocket \<Rightarrow> GameRoom \<times> effect list" where
  "handleDisconnect room ws =
     (case Map_get (wsToPlayer room) ws of
        None \<Rightarrow> (room, [])
      | Some pid \<Rightarrow>
          if pid = [] then (room, [])
          else
            let room' = room\<lparr>connections := Map_delete pid (connections room),
                             wsToPlayer := Map_delete ws (wsToPlayer room)\<rparr>
            in (room', broadcast room' None (PeerLeft pid)))"

subsection \<open>A room over time\<close>

text \<open>
  The calls the runtime makes on one room, each with what the world supplies to it.
\<close>

datatype event =
    Admission Request WebSocket WebSocket PlayerId int
  | Inbound WebSocket jsval int int
  | Disconnect WebSocket

fun step :: "GameRoom \<Rightarrow> event \<Rightarrow> GameRoom \<times> effect list" where
  "step room (Admission request client server newId now) =
     (case fetch room request client server newId now of (room', _, out) \<Rightarrow> (room', out))"
| "step room (Inbound ws decoded now serverTime) = webSocketMessage room ws decoded now serverTime"
| "step room (Disconnect ws) = handleDisconnect room ws"

fun run :: "GameRoom \<Rightarrow> event list \<Rightarrow> GameRoom \<times> effect list" where
  "run room [] = (room, [])"
| "run room (e # es) =
     (case step room e of (room', out) \<Rightarrow>
        (case run room' es of (room'', out') \<Rightarrow> (room'', out @ out')))"

subsection \<open>The registry as the code keeps it\<close>

text \<open>
  What a room satisfies as long as the sockets and playerIds it is given are new ones,
  as a test one can run: the keys of each map are distinct, an entry of \<open>connections\<close> stands under its own non-empty playerId and
  its socket is a key of \<open>wsToPlayer\<close> with that playerId, and a key of \<open>wsToPlayer\<close>
  is the socket of the entry its playerId names.
\<close>

definition wellformed :: "GameRoom \<Rightarrow> bool" where
  "wellformed room =
     (distinct (map fst (connections room)) \<and> distinct (map fst (wsToPlayer room)) \<and>
      list_all (\<lambda>(pid, conn). pid \<noteq> [] \<and> playerId conn = pid \<and>
                  Map_get (wsToPlayer room) (webSocket conn) = Some pid) (connections room) \<and>
      list_all (\<lambda>(ws, pid). case Map_get (connections room) pid of
                               Some conn \<Rightarrow> webSocket conn = ws | None \<Rightarrow> False)
        (wsToPlayer room))"

text \<open>
  What the world owes an admission: \<^verbatim>\<open>new WebSocketPair()\<close> makes an object no map
  knows, and \<^verbatim>\<open>crypto.randomUUID()\<close> returns a non-empty string, taken here to be one
  no entry stands under. The code checks neither.
\<close>

definition fresh :: "GameRoom \<Rightarrow> WebSocket \<Rightarrow> PlayerId \<Rightarrow> bool" where
  "fresh room server newId =
     (newId \<noteq> [] \<and> Map_get (connections room) newId = None \<and>
      Map_get (wsToPlayer room) server = None)"

fun fresh_events :: "GameRoom \<Rightarrow> event list \<Rightarrow> bool" where
  "fresh_events room [] = True"
| "fresh_events room (Admission request client server newId now # es) =
     (fresh room server newId \<and>
      fresh_events (fst (step room (Admission request client server newId now))) es)"
| "fresh_events room (e # es) = fresh_events (fst (step room e)) es"


text \<open>
  The playerId under which the constructor registers a retained socket, if it does.
\<close>

definition attachedId :: "WebSocket \<times> PlayerId option \<times> int \<Rightarrow> PlayerId option" where
  "attachedId r =
     (case r of (ws, attachment, now) \<Rightarrow>
        (case attachment of None \<Rightarrow> None | Some pid \<Rightarrow> if pid = [] then None else Some pid))"

text \<open>
  What the runtime hands the constructor: each retained socket once, and no playerId
  attached to two of them (each was written by one admission).
\<close>

definition restorable :: "(WebSocket \<times> PlayerId option \<times> int) list \<Rightarrow> bool" where
  "restorable sockets =
     (distinct (map fst sockets) \<and> distinct (List.map_filter attachedId sockets))"

section \<open>Rooms to try the code on\<close>

text \<open>
  A room built with no variable set and no socket retained, the request of a browser on
  the default origin, and the room after three admissions: a, b and c on the sockets 2,
  4 and 6.
\<close>

definition demo_env :: Env where
  "demo_env = \<lparr>ALLOWED_ORIGINS = None, MAX_MESSAGES_PER_SECOND = None,
                MAX_PLAYERS_PER_ROOM = None\<rparr>"

definition demo_request :: Request where
  "demo_request = \<lparr>Upgrade = Some ''WebSocket'', Origin = Some ''http://localhost:3000''\<rparr>"

definition lobby :: GameRoom where
  "lobby = GameRoom_new (\<lambda>s. NaN) demo_env []"

definition lobby_abc :: GameRoom where
  "lobby_abc =
     fst (run lobby
       [Admission demo_request 1 2 ''a'' 0,
        Admission demo_request 3 4 ''b'' 10,
        Admission demo_request 5 6 ''c'' 20])"

text \<open>
  The same room after a fourth admission for which \<^verbatim>\<open>crypto.randomUUID()\<close> returns a
  once more, on the new socket 8.
\<close>

definition lobby_collided :: GameRoom where
  "lobby_collided =
     fst (run lobby
       [Admission demo_request 1 2 ''a'' 0,
        Admission demo_request 3 4 ''b'' 10,
        Admission demo_request 5 6 ''c'' 20,
        Admission demo_request 7 8 ''a'' 30])"


text \<open>A payload of a game, \<^verbatim>\<open>{type: "move", x: 1}\<close>.\<close>

definition move_payload :: jsval where
  "move_payload = JObj [(''type'', JStr ''move''), (''x'', JNum (Fin 1))]"

text \<open>
  Two sockets retained over a hibernation, one with the playerId z attached and one with
  no attachment, and a run on the room restored from them: a and b are admitted, a sends
  a payload, c is admitted, and the close and the error callback of b's socket both run.
\<close>

definition demo_sockets :: "(WebSocket \<times> PlayerId option \<times> int) list" where
  "demo_sockets = [(9, Some ''z'', 0), (11, None, 0)]"

definition demo_events :: "event list" where
  "demo_events =
     [Admission demo_request 1 2 ''a'' 0,
      Admission demo_request 3 4 ''b'' 10,
      Inbound 2 move_payload 15 15,
      Admission demo_request 5 6 ''c'' 20,
      Disconnect 4,
      Disconnect 4]"

section \<open>The rate limiter\<close>

lemma evict_dropWhile: "evict c ts = dropWhile (\<lambda>t. t < c) ts"
  by (induction ts) auto

lemma evict_sorted: "sorted ts \<Longrightarrow> evict c ts = filter (\<lambda>t. \<not> t < c) ts"
proof (induction ts)
  case Nil
  then show ?case by simp
next
  case (Cons t ts)
  show ?case
  proof (cases "t < c")
    case True
    with Cons show ?thesis by simp
  next
    case False
    with Cons.prems have "\<forall>u\<in>set ts. \<not> u < c" by auto
    then have "filter (\<lambda>t. \<not> t < c) ts = ts" by (simp add: filter_id_conv)
    with False show ?thesis by simp
  qed
qed

lemma length_evict_le: "length (evict c ts) \<le> length ts"
  by (induction ts) auto

lemma set_evict_subset: "set (evict c ts) \<subseteq> set ts"
  by (induction ts) auto

lemma sorted_evict: "sorted ts \<Longrightarrow> sorted (evict c ts)"
  by (induction ts) auto

lemma maxMessages_allow: "maxMessages (snd (allow now rl)) = maxMessages rl"
  by (simp add: allow_def Let_def)

text \<open>
  While the clock does not run backwards the timestamps stay in non-decreasing order,
  none of them later than the last reading.
\<close>

lemma sorted_allow:
  assumes "sorted (timestamps rl)" and "\<forall>t\<in>set (timestamps rl). t \<le> now"
  shows "sorted (timestamps (snd (allow now rl))) \<and>
         (\<forall>t\<in>set (timestamps (snd (allow now rl))). t \<le> now)"
proof -
  let ?ts = "evict (now - windowMs) (timestamps rl)"
  have "sorted ?ts" using assms(1) by (rule sorted_evict)
  moreover have "\<forall>t\<in>set ?ts. t \<le> now" using assms(2) set_evict_subset by blast
  ultimately show ?thesis by (simp add: allow_def Let_def sorted_append)
qed

text \<open>
  C7. \<^verbatim>\<open>allow(now)\<close> on timestamps in non-decreasing order keeps exactly those that are
  not older than \<open>now - 1000\<close>; it answers false and records nothing when as many as the
  capacity are left, and otherwise appends \<open>now\<close> and answers true. With capacity 3 the
  calls at 0, 100 and 200 are allowed, the call at 300 is refused and the call at 1001
  is allowed.
\<close>

theorem allow_sliding_window:
  assumes "sorted (timestamps rl)"
  shows "allow now rl =
           (let kept = filter (\<lambda>t. \<not> t < now - 1000) (timestamps rl)
            in if js_ge (Fin (of_nat (length kept))) (maxMessages rl)
               then (False, rl\<lparr>timestamps := kept\<rparr>)
               else (True, rl\<lparr>timestamps := kept @ [now]\<rparr>))
         \<and> fst (allow_all (RateLimiter_new (Fin 3)) [0, 100, 200, 300, 1001])
             = [True, True, True, False, True]"
proof
  from assms show "allow now rl =
           (let kept = filter (\<lambda>t. \<not> t < now - 1000) (timestamps rl)
            in if js_ge (Fin (of_nat (length kept))) (maxMessages rl)
               then (False, rl\<lparr>timestamps := kept\<rparr>)
               else (True, rl\<lparr>timestamps := kept @ [now]\<rparr>))"
    by (simp add: allow_def windowMs_def Let_def evict_sorted)
  show "fst (allow_all (RateLimiter_new (Fin 3)) [0, 100, 200, 300, 1001])
          = [True, True, True, False, True]"
    by (simp add: RateLimiter_new_def allow_def windowMs_def Let_def)
qed

theorem allow_sliding_window_witness:
  "sorted [0, 100, 200 :: int] \<and>
   allow 1001 \<lparr>timestamps = [0, 100, 200], maxMessages = Fin 3\<rparr>
     = (True, \<lparr>timestamps = [100, 200, 1001], maxMessages = Fin 3\<rparr>)"
proof -
  have h: "sorted (timestamps \<lparr>timestamps = [0, 100, 200], maxMessages = Fin 3\<rparr>)" by simp
  show ?thesis using allow_sliding_window [OF h, of 1001] by (simp add: Let_def)
qed

lemma within_capacity_allow:
  assumes "within_capacity rl"
  shows "within_capacity (snd (allow now rl))"
proof (cases "maxMessages rl")
  case (Fin c)
  let ?ts = "evict (now - windowMs) (timestamps rl)"
  from assms Fin have c: "c = of_int \<lfloor>c\<rfloor>" and le: "of_nat (length (timestamps rl)) \<le> c"
    by (simp_all add: within_capacity_def)
  have l: "length ?ts \<le> length (timestamps rl)" by (rule length_evict_le)
  show ?thesis
  proof (cases "c \<le> of_nat (length ?ts)")
    case True
    with Fin c le l show ?thesis
      by (simp add: allow_def Let_def within_capacity_def)
  next
    case False
    then have "real (length ?ts) < of_int \<lfloor>c\<rfloor>" using c by simp
    then have "int (length ?ts) < \<lfloor>c\<rfloor>" by linarith
    then have "int (length ?ts) + 1 \<le> \<lfloor>c\<rfloor>" by simp
    then have "real (length ?ts) + 1 \<le> of_int \<lfloor>c\<rfloor>" by linarith
    with c have "real (length ?ts) + 1 \<le> c" by simp
    with Fin c False show ?thesis
      by (simp add: allow_def Let_def within_capacity_def)
  qed
qed (use assms in \<open>simp_all add: within_capacity_def allow_def Let_def\<close>)

lemma within_capacity_allow_all:
  "within_capacity rl \<Longrightarrow> within_capacity (snd (allow_all rl nows))"
proof (induction nows arbitrary: rl)
  case Nil
  then show ?case by simp
next
  case (Cons now nows)
  from Cons.prems have "within_capacity (snd (allow now rl))" by (rule within_capacity_allow)
  then have "within_capacity (snd (allow_all (snd (allow now rl)) nows))" by (rule Cons.IH)
  then show ?case by (simp add: split_def Let_def)
qed

lemma maxMessages_allow_all: "maxMessages (snd (allow_all rl nows)) = maxMessages rl"
  by (induction nows arbitrary: rl) (simp_all add: split_def Let_def maxMessages_allow)

lemma within_capacity_new: "m \<noteq> NaN \<Longrightarrow> within_capacity (RateLimiter_new m)"
  by (cases m) (simp_all add: within_capacity_def RateLimiter_new_def)

lemma within_capacity_ge:
  "within_capacity rl \<Longrightarrow> js_ge (maxMessages rl) (Fin (of_nat (length (timestamps rl))))"
  by (cases "maxMessages rl") (simp_all add: within_capacity_def)

lemma maxMessages_new_Fin: "maxMessages (RateLimiter_new (Fin q)) = Fin (of_int (max 1 \<lfloor>q\<rfloor>))"
  by (auto simp: RateLimiter_new_def max_def; linarith)

text \<open>
  A limiter built for a number that is not \<open>NaN\<close> never keeps more timestamps than its
  capacity, whatever calls of \<^verbatim>\<open>allow\<close> it has answered; built for the finite number
  \<open>q\<close>, it keeps at most \<open>max 1 \<lfloor>q\<rfloor>\<close>.
\<close>

theorem retained_within_capacity:
  assumes "m \<noteq> NaN"
  shows "js_ge (maxMessages (RateLimiter_new m))
           (Fin (of_nat (length (timestamps (snd (allow_all (RateLimiter_new m) nows))))))
         \<and> (\<forall>q. m = Fin q \<longrightarrow>
               int (length (timestamps (snd (allow_all (RateLimiter_new m) nows))))
                 \<le> max 1 \<lfloor>q\<rfloor>)"
proof -
  let ?n = "length (timestamps (snd (allow_all (RateLimiter_new m) nows)))"
  have "within_capacity (snd (allow_all (RateLimiter_new m) nows))"
    using assms by (intro within_capacity_allow_all within_capacity_new)
  from within_capacity_ge [OF this]
  have ge: "js_ge (maxMessages (RateLimiter_new m)) (Fin (of_nat ?n))"
    by (simp add: maxMessages_allow_all)
  have "int ?n \<le> max 1 \<lfloor>q\<rfloor>" if "m = Fin q" for q
  proof -
    from ge that have "real ?n \<le> of_int (max 1 \<lfloor>q\<rfloor>)"
      by (simp add: maxMessages_new_Fin)
    then show ?thesis by linarith
  qed
  with ge show ?thesis by blast
qed

theorem retained_within_capacity_witness:
  "Fin 3 \<noteq> NaN \<and>
   length (timestamps (snd (allow_all (RateLimiter_new (Fin 3)) [0, 100, 200, 300, 1001]))) \<le> 3"
proof -
  have h: "Fin 3 \<noteq> NaN" by simp
  show ?thesis
    using retained_within_capacity [OF h, of "[0, 100, 200, 300, 1001]"] by simp
qed

text \<open>
  C8 fails on the code for a limiter built for \<open>NaN\<close>, which is what the constructor of
  the room passes when \<^verbatim>\<open>MAX_MESSAGES_PER_SECOND\<close> is set and is no number:
  \<^verbatim>\<open>Math.max(1, Math.floor(NaN))\<close> is \<open>NaN\<close>, \<^verbatim>\<open>timestamps.length >= NaN\<close> is false, every
  call is allowed and recorded, and the timestamps kept are not at most the capacity.
\<close>

theorem limiter_of_NaN_keeps_all:
  "maxMessages (RateLimiter_new NaN) = NaN \<and>
   fst (allow_all (RateLimiter_new NaN) [0, 1, 2]) = [True, True, True] \<and>
   timestamps (snd (allow_all (RateLimiter_new NaN) [0, 1, 2])) = [0, 1, 2] \<and>
   \<not> js_ge (maxMessages (RateLimiter_new NaN))
         (Fin (of_nat (length (timestamps (snd (allow_all (RateLimiter_new NaN) [0, 1, 2]))))))"
  by (simp add: RateLimiter_new_def allow_def windowMs_def Let_def)

section \<open>The two maps\<close>

lemma map_of_Map_set: "map_of (Map_set k v m) = (map_of m)(k \<mapsto> v)"
  by (induction m) (auto simp: fun_eq_iff)

lemma map_of_Map_delete: "map_of (Map_delete k m) = (map_of m)(k := None)"
  by (induction m) (auto simp: fun_eq_iff)

lemma Map_get_set: "Map_get (Map_set k v m) k' = (if k' = k then Some v else Map_get m k')"
  by (simp add: Map_get_def map_of_Map_set)

lemma Map_get_delete: "Map_get (Map_delete k m) k' = (if k' = k then None else Map_get m k')"
  by (simp add: Map_get_def map_of_Map_delete)

lemma Map_delete_filter: "Map_delete k m = filter (\<lambda>e. fst e \<noteq> k) m"
  by (induction m) auto


lemma Map_set_old:
  "map_of m k \<noteq> None \<Longrightarrow> distinct (map fst m) \<Longrightarrow>
     Map_set k v m = map (\<lambda>e. if fst e = k then (k, v) else e) m"
proof (induction m)
  case Nil
  then show ?case by simp
next
  case (Cons e m)
  show ?case
  proof (cases "fst e = k")
    case True
    with Cons.prems(2) have "k \<notin> fst ` set m" by auto
    then have "map (\<lambda>e. if fst e = k then (k, v) else e) m = m"
      by (intro map_idI) auto
    with True show ?thesis by simp
  next
    case False
    with Cons show ?thesis by (auto split: if_splits)
  qed
qed

lemma keys_Map_set:
  "map fst (Map_set k v m) = (if k \<in> set (map fst m) then map fst m else map fst m @ [k])"
  by (induction m) auto

lemma distinct_Map_set: "distinct (map fst m) \<Longrightarrow> distinct (map fst (Map_set k v m))"
  by (simp add: keys_Map_set)

lemma distinct_Map_delete: "distinct (map fst m) \<Longrightarrow> distinct (map fst (Map_delete k m))"
  by (simp add: Map_delete_filter distinct_map_filter)

lemma list_all_map_of:
  "distinct (map fst m) \<Longrightarrow> list_all P m \<longleftrightarrow> (\<forall>k v. map_of m k = Some v \<longrightarrow> P (k, v))"
  by (auto simp: list_all_iff)

lemma wellformed_iff:
  "wellformed room \<longleftrightarrow>
     distinct (map fst (connections room)) \<and> distinct (map fst (wsToPlayer room)) \<and>
     (\<forall>pid conn. Map_get (connections room) pid = Some conn \<longrightarrow>
        pid \<noteq> [] \<and> playerId conn = pid \<and>
        Map_get (wsToPlayer room) (webSocket conn) = Some pid) \<and>
     (\<forall>ws pid. Map_get (wsToPlayer room) ws = Some pid \<longrightarrow>
        (\<exists>conn. Map_get (connections room) pid = Some conn \<and> webSocket conn = ws))"
proof (cases "distinct (map fst (connections room)) \<and> distinct (map fst (wsToPlayer room))")
  case True
  have c: "(case map_of m k of Some conn \<Rightarrow> webSocket conn = ws | None \<Rightarrow> False) \<longleftrightarrow>
           (\<exists>conn. map_of m k = Some conn \<and> webSocket conn = ws)"
    for m :: "(PlayerId \<times> PlayerConnection) list" and k ws
    by (cases "map_of m k") auto
  from True show ?thesis
    by (simp add: wellformed_def Map_get_def list_all_map_of c del: map_of_eq_Some_iff)
next
  case False
  then show ?thesis by (auto simp: wellformed_def)
qed

lemma wellformed_register:
  assumes wf: "wellformed room" and fr: "fresh room ws pid"
    and c: "playerId conn = pid" "webSocket conn = ws"
  shows "wellformed (room\<lparr>connections := Map_set pid conn (connections room),
                          wsToPlayer := Map_set ws pid (wsToPlayer room)\<rparr>)"
proof -
  from fr have ne: "pid \<noteq> []" and np: "Map_get (connections room) pid = None"
    and nw: "Map_get (wsToPlayer room) ws = None"
    by (simp_all add: fresh_def)
  from wf have d: "distinct (map fst (connections room))" "distinct (map fst (wsToPlayer room))"
    and a: "\<And>p c. Map_get (connections room) p = Some c \<Longrightarrow>
              p \<noteq> [] \<and> playerId c = p \<and> Map_get (wsToPlayer room) (webSocket c) = Some p"
    and b: "\<And>w p. Map_get (wsToPlayer room) w = Some p \<Longrightarrow>
              \<exists>c. Map_get (connections room) p = Some c \<and> webSocket c = w"
    unfolding wellformed_iff by blast+
  have 1: "webSocket c' \<noteq> ws" if "Map_get (connections room) p = Some c'" for p c'
    using a [OF that] nw by auto
  have 2: "p \<noteq> pid" if "Map_get (wsToPlayer room) w = Some p" for w p
    using b [OF that] np by auto
  show ?thesis
    unfolding wellformed_iff
    using d ne c a b 1 2
    by (auto simp: Map_get_set distinct_Map_set)
qed

lemma wellformed_limiter:
  assumes wf: "wellformed room" and g: "Map_get (connections room) pid = Some conn"
  shows "wellformed (room\<lparr>connections :=
            Map_set pid (conn\<lparr>rateLimiter := rl\<rparr>) (connections room)\<rparr>)"
proof -
  from wf have d: "distinct (map fst (connections room))" "distinct (map fst (wsToPlayer room))"
    and a: "\<And>p c. Map_get (connections room) p = Some c \<Longrightarrow>
              p \<noteq> [] \<and> playerId c = p \<and> Map_get (wsToPlayer room) (webSocket c) = Some p"
    and b: "\<And>w p. Map_get (wsToPlayer room) w = Some p \<Longrightarrow>
              \<exists>c. Map_get (connections room) p = Some c \<and> webSocket c = w"
    unfolding wellformed_iff by blast+
  have 3: "webSocket conn = w" if "Map_get (wsToPlayer room) w = Some pid" for w
    using b [OF that] g by auto
  show ?thesis
    unfolding wellformed_iff
    using d a b a [OF g] g 3
    by (auto simp: Map_get_set distinct_Map_set)
qed

lemma wellformed_unregister:
  assumes wf: "wellformed room" and g: "Map_get (wsToPlayer room) ws = Some pid"
  shows "wellformed (room\<lparr>connections := Map_delete pid (connections room),
                          wsToPlayer := Map_delete ws (wsToPlayer room)\<rparr>)"
proof -
  from wf have d: "distinct (map fst (connections room))" "distinct (map fst (wsToPlayer room))"
    and a: "\<And>p c. Map_get (connections room) p = Some c \<Longrightarrow>
              p \<noteq> [] \<and> playerId c = p \<and> Map_get (wsToPlayer room) (webSocket c) = Some p"
    and b: "\<And>w p. Map_get (wsToPlayer room) w = Some p \<Longrightarrow>
              \<exists>c. Map_get (connections room) p = Some c \<and> webSocket c = w"
    unfolding wellformed_iff by blast+
  have 1: "webSocket c' \<noteq> ws" if "Map_get (connections room) p = Some c'" "p \<noteq> pid" for p c'
    using a [OF that(1)] g that(2) by auto
  have 2: "p \<noteq> pid" if "Map_get (wsToPlayer room) w = Some p" "w \<noteq> ws" for w p
    using b [OF that(1)] b [OF g] that(2) by auto
  show ?thesis
    unfolding wellformed_iff
    using d a b 1 2
    by (auto simp: Map_get_delete distinct_Map_delete)
qed

lemma wellformed_fetch:
  assumes "wellformed room" and "fresh room server newId"
  shows "wellformed (fst (fetch room request client server newId now))"
  using assms by (simp add: fetch_def Let_def wellformed_register)

lemma wellformed_webSocketMessage:
  assumes "wellformed room"
  shows "wellformed (fst (webSocketMessage room ws decoded now serverTime))"
  using assms
  by (auto simp: webSocketMessage_def Let_def split_def wellformed_limiter
           split: option.splits)

lemma wellformed_handleDisconnect:
  assumes "wellformed room"
  shows "wellformed (fst (handleDisconnect room ws))"
  using assms
  by (auto simp: handleDisconnect_def Let_def wellformed_unregister split: option.splits)

lemma wellformed_step:
  assumes "wellformed room" and "fresh_events room [e]"
  shows "wellformed (fst (step room e))"
  using assms
  by (cases e)
     (simp_all add: wellformed_fetch wellformed_webSocketMessage wellformed_handleDisconnect
        split_def)

lemma wellformed_run:
  "wellformed room \<Longrightarrow> fresh_events room es \<Longrightarrow> wellformed (fst (run room es))"
proof (induction es arbitrary: room)
  case Nil
  then show ?case by simp
next
  case (Cons e es)
  from Cons.prems(2) have f1: "fresh_events room [e]" and f2: "fresh_events (fst (step room e)) es"
    by (cases e; simp)+
  from Cons.prems(1) f1 have "wellformed (fst (step room e))" by (rule wellformed_step)
  from Cons.IH [OF this f2] show ?case by (simp add: split_def)
qed

subsection \<open>The constructor's restore\<close>

lemma restoreSocket_attachedId:
  "restoreSocket room r =
     (case attachedId r of
        None \<Rightarrow> room
      | Some pid \<Rightarrow>
          room\<lparr>connections :=
                 Map_set pid \<lparr>playerId = pid, webSocket = fst r,
                              rateLimiter = RateLimiter_new (maxMessagesPerSecond room),
                              joinedAt = snd (snd r)\<rparr> (connections room),
               wsToPlayer := Map_set (fst r) pid (wsToPlayer room)\<rparr>)"
  by (cases r) (simp add: restoreSocket_def attachedId_def Let_def split: option.splits)

lemma restoreSocket_config:
  "maxMessagesPerSecond (restoreSocket room r) = maxMessagesPerSecond room"
  "maxPlayersPerRoom (restoreSocket room r) = maxPlayersPerRoom room"
  "allowedOrigins (restoreSocket room r) = allowedOrigins room"
  by (simp_all add: restoreSocket_attachedId split: option.splits)

lemma restoreSocket_wsToPlayer:
  "Map_get (wsToPlayer (restoreSocket room r)) ws =
     (if ws = fst r
      then (case attachedId r of Some pid \<Rightarrow> Some pid | None \<Rightarrow> Map_get (wsToPlayer room) ws)
      else Map_get (wsToPlayer room) ws)"
  by (simp add: restoreSocket_attachedId Map_get_set split: option.splits)

lemma restoreSocket_connections:
  "Map_get (connections (restoreSocket room r)) pid =
     (if attachedId r = Some pid
      then Some \<lparr>playerId = pid, webSocket = fst r,
                 rateLimiter = RateLimiter_new (maxMessagesPerSecond room),
                 joinedAt = snd (snd r)\<rparr>
      else Map_get (connections room) pid)"
  by (auto simp: restoreSocket_attachedId Map_get_set split: option.splits)

lemma restore_config:
  "maxMessagesPerSecond (foldl restoreSocket room rs) = maxMessagesPerSecond room"
  "maxPlayersPerRoom (foldl restoreSocket room rs) = maxPlayersPerRoom room"
  "allowedOrigins (foldl restoreSocket room rs) = allowedOrigins room"
  by (induction rs arbitrary: room) (simp_all add: restoreSocket_config)





lemma wellformed_restore:
  assumes "wellformed room" and "distinct (map fst rs)"
    and "distinct (List.map_filter attachedId rs)"
    and "\<forall>ws\<in>fst ` set rs. Map_get (wsToPlayer room) ws = None"
    and "\<forall>pid\<in>set (List.map_filter attachedId rs). Map_get (connections room) pid = None"
  shows "wellformed (foldl restoreSocket room rs)"
  using assms
proof (induction rs arbitrary: room)
  case Nil
  then show ?case by simp
next
  case (Cons r rs)
  have wf: "wellformed (restoreSocket room r)"
  proof (cases "attachedId r")
    case None
    with Cons.prems(1) show ?thesis by (simp add: restoreSocket_attachedId)
  next
    case (Some pid)
    then have "pid \<noteq> []" by (cases r) (auto simp: attachedId_def split: option.splits if_splits)
    with Some Cons.prems(4,5) have "fresh room (fst r) pid"
      by (simp add: fresh_def List.map_filter_simps)
    with Some Cons.prems(1) show ?thesis
      by (simp add: restoreSocket_attachedId wellformed_register)
  qed
  have 4: "\<forall>ws\<in>fst ` set rs. Map_get (wsToPlayer (restoreSocket room r)) ws = None"
  proof
    fix ws
    assume ws: "ws \<in> fst ` set rs"
    moreover from Cons.prems(2) have "fst r \<notin> fst ` set rs" by simp
    ultimately have "ws \<noteq> fst r" by metis
    moreover from ws Cons.prems(4) have "Map_get (wsToPlayer room) ws = None" by auto
    ultimately show "Map_get (wsToPlayer (restoreSocket room r)) ws = None"
      by (simp add: restoreSocket_wsToPlayer)
  qed
  have d: "distinct (List.map_filter attachedId rs)"
    using Cons.prems(3) by (simp add: List.map_filter_simps split: option.splits)
  have 5: "\<forall>pid\<in>set (List.map_filter attachedId rs).
             Map_get (connections (restoreSocket room r)) pid = None"
    using Cons.prems(3,5)
    by (auto simp: restoreSocket_connections List.map_filter_simps split: option.splits)
  from Cons.prems(2) have "distinct (map fst rs)" by simp
  from Cons.IH [OF wf this d 4 5] show ?case by simp
qed

lemma wellformed_GameRoom_new:
  "restorable sockets \<Longrightarrow> wellformed (GameRoom_new toNumber env sockets)"
  unfolding GameRoom_new_def restorable_def
  by (rule wellformed_restore) (simp_all add: wellformed_def Map_get_def)

section \<open>Who a broadcast reaches\<close>

lemma count_distinct_map:
  "distinct (map f xs) \<Longrightarrow>
     length (filter (\<lambda>x. f x = a \<and> P x) xs) = (if \<exists>x\<in>set xs. f x = a \<and> P x then 1 else 0)"
proof (induction xs)
  case Nil
  then show ?case by simp
next
  case (Cons x xs)
  then have IH: "length (filter (\<lambda>x. f x = a \<and> P x) xs)
                   = (if \<exists>x\<in>set xs. f x = a \<and> P x then 1 else 0)"
    and notin: "f x \<notin> f ` set xs"
    by simp_all
  show ?case
  proof (cases "f x = a \<and> P x")
    case True
    with notin have "\<not> (\<exists>y\<in>set xs. f y = a \<and> P y)" by (metis imageI)
    with IH True show ?thesis by simp
  next
    case False
    with IH show ?thesis by auto
  qed
qed

lemma in_values_iff:
  "distinct (map fst m) \<Longrightarrow> conn \<in> set (Map_values m) \<longleftrightarrow> (\<exists>k. Map_get m k = Some conn)"
  by (force simp: Map_values_def Map_get_def)

lemma distinct_sockets:
  assumes "wellformed room"
  shows "distinct (map webSocket (Map_values (connections room)))"
proof -
  from assms have d: "distinct (map fst (connections room))"
    and a: "\<And>p c. Map_get (connections room) p = Some c \<Longrightarrow>
              playerId c = p \<and> Map_get (wsToPlayer room) (webSocket c) = Some p"
    unfolding wellformed_iff by blast+
  have inj: "inj_on (\<lambda>e. webSocket (snd e)) (set (connections room))"
  proof (rule inj_onI)
    fix x y
    assume x: "x \<in> set (connections room)" and y: "y \<in> set (connections room)"
      and eq: "webSocket (snd x) = webSocket (snd y)"
    from x have gx: "Map_get (connections room) (fst x) = Some (snd x)"
      using map_of_is_SomeI [OF d, of "fst x" "snd x"] by (simp add: Map_get_def)
    from y have gy: "Map_get (connections room) (fst y) = Some (snd y)"
      using map_of_is_SomeI [OF d, of "fst y" "snd y"] by (simp add: Map_get_def)
    from a [OF gx] a [OF gy] eq have "fst x = fst y" by simp
    with gx gy have "snd x = snd y" by simp
    with \<open>fst x = fst y\<close> show "x = y" by (simp add: prod_eq_iff)
  qed
  from d have "distinct (connections room)" by (simp add: distinct_map)
  with inj have "distinct (map (\<lambda>e. webSocket (snd e)) (connections room))"
    by (simp add: distinct_map)
  then show ?thesis by (simp add: Map_values_def comp_def)
qed

lemma broadcast_sends: "\<forall>e\<in>set (broadcast room ex m). e = Send (target e) m"
  by (auto simp: broadcast_def)

lemma broadcast_count:
  assumes "wellformed room"
  shows "length (filter (\<lambda>e. target e = w) (broadcast room ex m)) =
           (case Map_get (wsToPlayer room) w of
              None \<Rightarrow> 0
            | Some pid \<Rightarrow> if ex = Some pid then 0 else 1)"
proof -
  from assms have d: "distinct (map fst (connections room))"
    and a: "\<And>p c. Map_get (connections room) p = Some c \<Longrightarrow>
              p \<noteq> [] \<and> playerId c = p \<and> Map_get (wsToPlayer room) (webSocket c) = Some p"
    and b: "\<And>w p. Map_get (wsToPlayer room) w = Some p \<Longrightarrow>
              \<exists>c. Map_get (connections room) p = Some c \<and> webSocket c = w"
    unfolding wellformed_iff by blast+
  let ?cs = "Map_values (connections room)"
  have "length (filter (\<lambda>e. target e = w) (broadcast room ex m))
          = length (filter (\<lambda>c. webSocket c = w \<and> \<not> excluded ex c) ?cs)"
    by (simp add: broadcast_def filter_map comp_def conj_commute)
  also have "\<dots> = (if \<exists>c\<in>set ?cs. webSocket c = w \<and> \<not> excluded ex c then 1 else 0)"
    using distinct_sockets [OF assms] by (rule count_distinct_map)
  also have "\<dots> = (case Map_get (wsToPlayer room) w of
              None \<Rightarrow> 0
            | Some pid \<Rightarrow> if ex = Some pid then 0 else 1)"
  proof (cases "Map_get (wsToPlayer room) w")
    case None
    have "\<not> (\<exists>c\<in>set ?cs. webSocket c = w)"
    proof
      assume "\<exists>c\<in>set ?cs. webSocket c = w"
      then obtain c k where "Map_get (connections room) k = Some c" "webSocket c = w"
        using d by (auto simp: in_values_iff)
      with a [of k c] None show False by simp
    qed
    with None show ?thesis by auto
  next
    case (Some pid)
    from b [OF Some] obtain c where c: "Map_get (connections room) pid = Some c" "webSocket c = w"
      by blast
    from a [OF c(1)] have pc: "pid \<noteq> []" "playerId c = pid" by simp_all
    have cin: "c \<in> set ?cs" using c(1) d by (auto simp: in_values_iff)
    have uniq: "c' = c" if "c' \<in> set ?cs" "webSocket c' = w" for c'
    proof -
      from that(1) d obtain k where k: "Map_get (connections room) k = Some c'"
        by (auto simp: in_values_iff)
      from a [OF k] that(2) Some have "k = pid" by simp
      with k c(1) show ?thesis by simp
    qed
    have "(\<exists>c\<in>set ?cs. webSocket c = w \<and> \<not> excluded ex c) \<longleftrightarrow> \<not> excluded ex c"
      using cin c(2) uniq by blast
    moreover have "excluded ex c \<longleftrightarrow> ex = Some pid"
      using pc by (auto simp: excluded_def split: option.splits)
    ultimately show ?thesis using Some by simp
  qed
  finally show ?thesis .
qed

lemma registered_unique:
  assumes "wellformed room"
    and "Map_get (wsToPlayer room) ws = Some pid" and "Map_get (wsToPlayer room) w = Some pid"
  shows "w = ws"
proof -
  from assms(1) have b: "\<And>w p. Map_get (wsToPlayer room) w = Some p \<Longrightarrow>
              \<exists>c. Map_get (connections room) p = Some c \<and> webSocket c = w"
    unfolding wellformed_iff by blast
  from b [OF assms(2)] b [OF assms(3)] show ?thesis by auto
qed

section \<open>The rooms to try the code on, evaluated\<close>

lemma lobby_eq:
  "lobby = \<lparr>connections = [], wsToPlayer = [], allowedOrigins = [''http://localhost:3000''],
            maxMessagesPerSecond = Fin 60, maxPlayersPerRoom = Fin 20\<rparr>"
  by (simp add: lobby_def GameRoom_new_def demo_env_def parseOrigins_def trim_def is_space_def
        envLimit_def)

lemma toLowerCase_WebSocket:
  "toLowerCase ''WebSocket'' = ''websocket''"
  by (simp add: toLowerCase_def)


lemma lobby_abc_eq:
  "lobby_abc =
     \<lparr>connections =
        [(''a'', \<lparr>playerId = ''a'', webSocket = 2, rateLimiter = RateLimiter_new (Fin 60), joinedAt = 0\<rparr>),
         (''b'', \<lparr>playerId = ''b'', webSocket = 4, rateLimiter = RateLimiter_new (Fin 60), joinedAt = 10\<rparr>),
         (''c'', \<lparr>playerId = ''c'', webSocket = 6, rateLimiter = RateLimiter_new (Fin 60), joinedAt = 20\<rparr>)],
      wsToPlayer = [(2, ''a''), (4, ''b''), (6, ''c'')],
      allowedOrigins = [''http://localhost:3000''],
      maxMessagesPerSecond = Fin 60, maxPlayersPerRoom = Fin 20\<rparr>"
  by (simp add: lobby_abc_def lobby_eq demo_request_def fetch_def toLowerCase_WebSocket Map_size_def
        Map_values_def Let_def)

lemma wellformed_lobby_abc: "wellformed lobby_abc"
  by (simp add: lobby_abc_eq wellformed_def Map_get_def)

lemma lobby_collided_eq:
  "lobby_collided =
     \<lparr>connections =
        [(''a'', \<lparr>playerId = ''a'', webSocket = 8, rateLimiter = RateLimiter_new (Fin 60), joinedAt = 30\<rparr>),
         (''b'', \<lparr>playerId = ''b'', webSocket = 4, rateLimiter = RateLimiter_new (Fin 60), joinedAt = 10\<rparr>),
         (''c'', \<lparr>playerId = ''c'', webSocket = 6, rateLimiter = RateLimiter_new (Fin 60), joinedAt = 20\<rparr>)],
      wsToPlayer = [(2, ''a''), (4, ''b''), (6, ''c''), (8, ''a'')],
      allowedOrigins = [''http://localhost:3000''],
      maxMessagesPerSecond = Fin 60, maxPlayersPerRoom = Fin 20\<rparr>"
  unfolding lobby_collided_def by code_simp

section \<open>webSocketMessage\<close>

lemma webSocketMessage_registered:
  assumes "Map_get (wsToPlayer room) ws = Some pid" and "pid \<noteq> []"
    and "Map_get (connections room) pid = Some conn"
  shows "webSocketMessage room ws decoded now serverTime =
     (let room' = room\<lparr>connections :=
                    Map_set pid (conn\<lparr>rateLimiter := snd (allow now (rateLimiter conn))\<rparr>)
                      (connections room)\<rparr>
      in (room',
          if \<not> fst (allow now (rateLimiter conn))
          then [Send ws (Error RATE_LIMITED (Plain ''Rate limited''))]
          else if \<not> isObject decoded \<or> isArray decoded
          then [Send ws (Error INVALID_MESSAGE (Plain ''Invalid message format''))]
          else if getProp decoded ''type'' = JStr ''hello''
          then (case getProp decoded ''protocolVersion'' of
                  JNum clientVersion \<Rightarrow>
                    if clientVersion \<noteq> PROTOCOL_VERSION
                    then [Send ws (Error BAD_PROTOCOL
                            (ProtocolMismatch PROTOCOL_VERSION clientVersion)),
                          Close ws 1008 ''BAD_PROTOCOL'']
                    else []
                | _ \<Rightarrow> [])
          else (case pingNonce decoded of
                  Some nonce \<Rightarrow> [Send ws (Pong nonce serverTime)]
                | None \<Rightarrow> broadcast room' (Some pid) (Relay pid decoded))))"
  using assms
  by (simp add: webSocketMessage_def Let_def split_def error_def split: option.splits jsval.splits)


lemma wellformed_registered:
  assumes "wellformed room" and "Map_get (wsToPlayer room) ws = Some pid"
  shows "pid \<noteq> [] \<and> (\<exists>conn. Map_get (connections room) pid = Some conn \<and> webSocket conn = ws
                          \<and> playerId conn = pid)"
  using assms unfolding wellformed_iff by blast


lemma pingNonce_None:
  "pingNonce decoded = None \<longleftrightarrow>
     \<not> (getProp decoded ''type'' = JStr ''ping'' \<and> (\<exists>nonce. getProp decoded ''nonce'' = JStr nonce))"
  by (cases "getProp decoded ''nonce''") (simp_all add: pingNonce_def)

text \<open>
  C2, as the code has it. In a room kept as the code keeps it while no playerId is given
  out twice, a registered sender whose limiter lets the message through sends a decoded
  value that is an object, no array, whose type is not "hello" and that is no ping with
  a string nonce. Then every socket registered other than the sender's is the target of
  exactly one effect, no other socket (the sender's among them) is the target of any,
  and every effect sends the relay of the sender's playerId with the value as it came.
\<close>

theorem relay_reaches_every_other:
  assumes wf: "wellformed room"
    and reg: "Map_get (wsToPlayer room) ws = Some pid"
    and conn: "Map_get (connections room) pid = Some conn"
    and ok: "fst (allow now (rateLimiter conn))"
    and obj: "isObject decoded" "\<not> isArray decoded"
    and hello: "getProp decoded ''type'' \<noteq> JStr ''hello''"
    and ping: "\<not> (getProp decoded ''type'' = JStr ''ping'' \<and>
                  (\<exists>nonce. getProp decoded ''nonce'' = JStr nonce))"
  shows "(\<forall>w. length (filter (\<lambda>e. target e = w)
                  (snd (webSocketMessage room ws decoded now serverTime)))
               = (if w \<noteq> ws \<and> Map_get (wsToPlayer room) w \<noteq> None then 1 else 0))
         \<and> (\<forall>e\<in>set (snd (webSocketMessage room ws decoded now serverTime)).
               e = Send (target e) (Relay pid decoded))"
proof -
  let ?room' = "room\<lparr>connections :=
                    Map_set pid (conn\<lparr>rateLimiter := snd (allow now (rateLimiter conn))\<rparr>)
                      (connections room)\<rparr>"
  from wellformed_registered [OF wf reg] have ne: "pid \<noteq> []" by simp
  from ping have pn: "pingNonce decoded = None" by (simp add: pingNonce_None)
  have out: "snd (webSocketMessage room ws decoded now serverTime)
               = broadcast ?room' (Some pid) (Relay pid decoded)"
    using ok obj hello pn
    by (simp add: webSocketMessage_registered [OF reg ne conn] Let_def)
  have wf': "wellformed ?room'" using wf conn by (rule wellformed_limiter)
  have cnt: "length (filter (\<lambda>e. target e = w) (broadcast ?room' (Some pid) (Relay pid decoded)))
               = (if w \<noteq> ws \<and> Map_get (wsToPlayer room) w \<noteq> None then 1 else 0)" for w
  proof (cases "Map_get (wsToPlayer room) w")
    case None
    then show ?thesis by (simp add: broadcast_count [OF wf'])
  next
    case (Some p)
    have "p = pid \<longleftrightarrow> w = ws"
      using registered_unique [OF wf reg, of w] Some reg by auto
    with Some show ?thesis by (auto simp: broadcast_count [OF wf'])
  qed
  from cnt broadcast_sends [of ?room' "Some pid" "Relay pid decoded"] show ?thesis
    unfolding out by blast
qed


lemma lobby_abc_a:
  "Map_get (wsToPlayer lobby_abc) 2 = Some ''a''"
  "Map_get (connections lobby_abc) ''a'' =
     Some \<lparr>playerId = ''a'', webSocket = 2, rateLimiter = RateLimiter_new (Fin 60), joinedAt = 0\<rparr>"
  "fst (allow 1000 (rateLimiter \<lparr>playerId = ''a'', webSocket = 2,
          rateLimiter = RateLimiter_new (Fin 60), joinedAt = 0\<rparr>))"
  "fst (allow 1000 (RateLimiter_new (Fin 60)))"
  by (simp_all add: lobby_abc_eq Map_get_def allow_def RateLimiter_new_def Let_def)

text \<open>
  In the room of a, b and c, a sends \<^verbatim>\<open>{type: "move", x: 1}\<close>: one relay to b, one
  to c, none to a.
\<close>

theorem relay_reaches_every_other_witness:
  "wellformed lobby_abc \<and> Map_get (wsToPlayer lobby_abc) 2 = Some ''a'' \<and>
   Map_get (wsToPlayer lobby_abc) 4 = Some ''b'' \<and> Map_get (wsToPlayer lobby_abc) 6 = Some ''c'' \<and>
   snd (webSocketMessage lobby_abc 2 move_payload 1000 1000)
     = [Send 4 (Relay ''a'' move_payload), Send 6 (Relay ''a'' move_payload)] \<and>
   length (filter (\<lambda>e. target e = 4) (snd (webSocketMessage lobby_abc 2 move_payload 1000 1000))) = 1 \<and>
   length (filter (\<lambda>e. target e = 6) (snd (webSocketMessage lobby_abc 2 move_payload 1000 1000))) = 1 \<and>
   length (filter (\<lambda>e. target e = 2) (snd (webSocketMessage lobby_abc 2 move_payload 1000 1000))) = 0"
proof -
  have obj: "isObject move_payload" "\<not> isArray move_payload"
    and hello: "getProp move_payload ''type'' \<noteq> JStr ''hello''"
    and ping: "\<not> (getProp move_payload ''type'' = JStr ''ping'' \<and>
                  (\<exists>nonce. getProp move_payload ''nonce'' = JStr nonce))"
    by (simp_all add: move_payload_def)
  have regs: "Map_get (wsToPlayer lobby_abc) 4 = Some ''b''"
    "Map_get (wsToPlayer lobby_abc) 6 = Some ''c''"
    by (simp_all add: lobby_abc_eq Map_get_def)
  note t = relay_reaches_every_other [OF wellformed_lobby_abc lobby_abc_a(1,2,3) obj hello ping,
      of 1000]
  from t have cnt: "length (filter (\<lambda>e. target e = w)
                  (snd (webSocketMessage lobby_abc 2 move_payload 1000 1000)))
               = (if w \<noteq> 2 \<and> Map_get (wsToPlayer lobby_abc) w \<noteq> None then 1 else 0)" for w
    by blast
  have out: "snd (webSocketMessage lobby_abc 2 move_payload 1000 1000)
     = [Send 4 (Relay ''a'' move_payload), Send 6 (Relay ''a'' move_payload)]"
    using obj hello ping
    by (simp add: webSocketMessage_registered [OF lobby_abc_a(1) _ lobby_abc_a(2)] lobby_abc_a(4)
          pingNonce_None [THEN iffD2] Let_def)
       (simp add: lobby_abc_eq broadcast_def Map_values_def excluded_def)
  show ?thesis
    using wellformed_lobby_abc lobby_abc_a(1) regs out cnt [of 4] cnt [of 6] cnt [of 2]
    by simp
qed

text \<open>
  C2, as the spec has it, fails in the room where \<^verbatim>\<open>crypto.randomUUID()\<close> has returned
  a twice: the sockets 2 and 8 are both registered under a, \<open>connections\<close> holds one
  entry for a, the broadcast leaves it out, and the payload socket 2 sends reaches 4 and
  6 but not 8, a registered connection other than the sender.
\<close>

theorem relay_collision_counterexample:
  "Map_get (wsToPlayer lobby_collided) 2 = Some ''a'' \<and>
   Map_get (wsToPlayer lobby_collided) 8 = Some ''a'' \<and>
   isObject move_payload \<and> \<not> isArray move_payload \<and>
   getProp move_payload ''type'' = JStr ''move'' \<and>
   snd (webSocketMessage lobby_collided 2 move_payload 1000 1000)
     = [Send 4 (Relay ''a'' move_payload), Send 6 (Relay ''a'' move_payload)] \<and>
   length (filter (\<lambda>e. target e = 8)
             (snd (webSocketMessage lobby_collided 2 move_payload 1000 1000))) = 0"
  by (simp add: lobby_collided_eq Map_get_def webSocketMessage_def allow_def RateLimiter_new_def
        windowMs_def Let_def pingNonce_def broadcast_def Map_values_def excluded_def
        move_payload_def)



section \<open>fetch\<close>

text \<open>
  C4. While the room holds at least as many connections as its capacity, \<^verbatim>\<open>fetch\<close>
  answers with a refusal: the room is left as it was, nothing is accepted, attached or
  sent, and the response carries no socket. The refusal is 503 "Room is full" for a
  request that passes the two checks made before: an Upgrade header that is "websocket"
  in lower case, and an Origin header that is absent, empty or allowed.
\<close>

theorem full_room_refuses:
  assumes "js_ge (Fin (of_nat (Map_size (connections room)))) (maxPlayersPerRoom room)"
  shows "fst (fetch room request client server newId now) = room
         \<and> snd (snd (fetch room request client server newId now)) = []
         \<and> clientSocket (fst (snd (fetch room request client server newId now))) = None
         \<and> status (fst (snd (fetch room request client server newId now))) \<in> {426, 403, 503}
         \<and> ((\<exists>u. Upgrade request = Some u \<and> toLowerCase u = ''websocket'') \<and>
              (Origin request = None \<or> Origin request = Some [] \<or>
               (\<exists>origin. Origin request = Some origin \<and> origin \<in> set (allowedOrigins room)))
              \<longrightarrow> fst (snd (fetch room request client server newId now))
                    = \<lparr>status = 503, body = Some ''Room is full'', clientSocket = None\<rparr>)"
  using assms
  by (auto simp: fetch_def toLowerCase_def split: option.splits)

lemma lobby_full:
  assumes "room = lobby_abc\<lparr>maxPlayersPerRoom := Fin 3\<rparr>"
  shows "js_ge (Fin (of_nat (Map_size (connections room)))) (maxPlayersPerRoom room)"
  using assms by (simp add: lobby_abc_eq Map_size_def)

theorem full_room_refuses_witness:
  "js_ge (Fin (of_nat (Map_size (connections (lobby_abc\<lparr>maxPlayersPerRoom := Fin 3\<rparr>)))))
     (maxPlayersPerRoom (lobby_abc\<lparr>maxPlayersPerRoom := Fin 3\<rparr>)) \<and>
   fetch (lobby_abc\<lparr>maxPlayersPerRoom := Fin 3\<rparr>) demo_request 7 8 ''d'' 30
     = (lobby_abc\<lparr>maxPlayersPerRoom := Fin 3\<rparr>,
        \<lparr>status = 503, body = Some ''Room is full'', clientSocket = None\<rparr>, [])"
proof -
  have full: "js_ge (Fin (of_nat (Map_size (connections (lobby_abc\<lparr>maxPlayersPerRoom := Fin 3\<rparr>)))))
     (maxPlayersPerRoom (lobby_abc\<lparr>maxPlayersPerRoom := Fin 3\<rparr>))"
    by (rule lobby_full) simp
  have req: "(\<exists>u. Upgrade demo_request = Some u \<and> toLowerCase u = ''websocket'') \<and>
              (Origin demo_request = None \<or> Origin demo_request = Some [] \<or>
               (\<exists>origin. Origin demo_request = Some origin \<and>
                  origin \<in> set (allowedOrigins (lobby_abc\<lparr>maxPlayersPerRoom := Fin 3\<rparr>))))"
    by (simp add: demo_request_def toLowerCase_WebSocket lobby_abc_eq)
  from full_room_refuses [OF full, of demo_request 7 8 "''d''" 30] req
  have "fst (fetch (lobby_abc\<lparr>maxPlayersPerRoom := Fin 3\<rparr>) demo_request 7 8 ''d'' 30)
          = lobby_abc\<lparr>maxPlayersPerRoom := Fin 3\<rparr>"
    and "snd (snd (fetch (lobby_abc\<lparr>maxPlayersPerRoom := Fin 3\<rparr>) demo_request 7 8 ''d'' 30)) = []"
    and "fst (snd (fetch (lobby_abc\<lparr>maxPlayersPerRoom := Fin 3\<rparr>) demo_request 7 8 ''d'' 30))
          = \<lparr>status = 503, body = Some ''Room is full'', clientSocket = None\<rparr>"
    by blast+
  with full show ?thesis by (simp add: prod_eq_iff)
qed










section \<open>handleDisconnect, and a room over time\<close>

lemma handleDisconnect_unregistered:
  "Map_get (wsToPlayer room) ws = None \<Longrightarrow> handleDisconnect room ws = (room, [])"
  by (simp add: handleDisconnect_def)

lemma handleDisconnect_registered:
  assumes "Map_get (wsToPlayer room) ws = Some pid" and "pid \<noteq> []"
  shows "handleDisconnect room ws =
     (let room' = room\<lparr>connections := Map_delete pid (connections room),
                       wsToPlayer := Map_delete ws (wsToPlayer room)\<rparr>
      in (room', broadcast room' None (PeerLeft pid)))"
  using assms by (simp add: handleDisconnect_def)












section \<open>The registry over a run\<close>

lemma wellformed_consistent:
  assumes "wellformed room"
  shows "Map_get (wsToPlayer room) ws = Some p \<longleftrightarrow>
           (\<exists>conn. Map_get (connections room) p = Some conn \<and> webSocket conn = ws)"
  using assms unfolding wellformed_iff by blast

lemma wellformed_no_entry:
  assumes "wellformed room" and "Map_get (wsToPlayer room) ws = None"
    and "Map_get (connections room) p = Some conn"
  shows "webSocket conn \<noteq> ws"
  using assms unfolding wellformed_iff by force

lemma handleDisconnect_removes:
  assumes "wellformed room"
  shows "Map_get (wsToPlayer (fst (handleDisconnect room ws))) ws = None"
proof (cases "Map_get (wsToPlayer room) ws")
  case None
  then show ?thesis by (simp add: handleDisconnect_unregistered)
next
  case (Some pid)
  from wellformed_registered [OF assms Some] have "pid \<noteq> []" by simp
  with Some show ?thesis
    by (simp add: handleDisconnect_registered Let_def Map_get_delete)
qed

text \<open>
  C1, as the code has it. A room is built by the constructor from retained sockets, each handed over once
  and no playerId attached to two of them, and then answers any sequence of admissions,
  inbound messages and disconnects in which every admission comes with a socket no map
  knows and a playerId that is not empty and not registered. In the room it has become,
  a socket is a key of \<open>wsToPlayer\<close> with playerId \<open>p\<close> exactly when \<open>connections\<close> holds
  under \<open>p\<close> an entry with that socket; and once \<^verbatim>\<open>handleDisconnect\<close> has run on
  a socket, the socket is no key of \<open>wsToPlayer\<close> and no entry of \<open>connections\<close> has it.
\<close>

theorem registry_stays_consistent:
  assumes "restorable sockets"
    and "fresh_events (GameRoom_new toNumber env sockets) es"
  shows "(\<forall>ws p. Map_get (wsToPlayer (fst (run (GameRoom_new toNumber env sockets) es))) ws
                   = Some p \<longleftrightarrow>
                 (\<exists>conn. Map_get (connections (fst (run (GameRoom_new toNumber env sockets) es))) p
                           = Some conn \<and> webSocket conn = ws))
       \<and> (\<forall>ws. Map_get (wsToPlayer (fst (handleDisconnect
                     (fst (run (GameRoom_new toNumber env sockets) es)) ws))) ws = None
              \<and> (\<forall>p conn. Map_get (connections (fst (handleDisconnect
                     (fst (run (GameRoom_new toNumber env sockets) es)) ws))) p = Some conn
                    \<longrightarrow> webSocket conn \<noteq> ws))"
proof -
  let ?room = "fst (run (GameRoom_new toNumber env sockets) es)"
  have "wellformed (GameRoom_new toNumber env sockets)"
    using assms(1) by (rule wellformed_GameRoom_new)
  then have wf: "wellformed ?room" using assms(2) by (rule wellformed_run)
  have wf': "wellformed (fst (handleDisconnect ?room ws))" for ws
    using wf by (rule wellformed_handleDisconnect)
  from wellformed_consistent [OF wf] handleDisconnect_removes [OF wf]
    wellformed_no_entry [OF wf' handleDisconnect_removes [OF wf]]
  show ?thesis by blast
qed


lemma restorable_demo: "restorable demo_sockets"
  by (simp add: restorable_def demo_sockets_def List.map_filter_simps attachedId_def)

lemma fresh_demo: "fresh_events (GameRoom_new (\<lambda>s. NaN) demo_env demo_sockets) demo_events"
  by code_simp

lemma run_demo:
  "wsToPlayer (fst (run (GameRoom_new (\<lambda>s. NaN) demo_env demo_sockets) demo_events))
     = [(9, ''z''), (2, ''a''), (6, ''c'')]"
  by code_simp

theorem registry_stays_consistent_witness:
  "restorable demo_sockets \<and>
   fresh_events (GameRoom_new (\<lambda>s. NaN) demo_env demo_sockets) demo_events \<and>
   wsToPlayer (fst (run (GameRoom_new (\<lambda>s. NaN) demo_env demo_sockets) demo_events))
     = [(9, ''z''), (2, ''a''), (6, ''c'')] \<and>
   (\<exists>conn. Map_get (connections
              (fst (run (GameRoom_new (\<lambda>s. NaN) demo_env demo_sockets) demo_events))) ''c''
            = Some conn \<and> webSocket conn = 6)"
proof -
  have "Map_get (wsToPlayer
          (fst (run (GameRoom_new (\<lambda>s. NaN) demo_env demo_sockets) demo_events))) 6 = Some ''c''"
    by (simp add: run_demo Map_get_def)
  with registry_stays_consistent [OF restorable_demo fresh_demo]
  have "\<exists>conn. Map_get (connections
              (fst (run (GameRoom_new (\<lambda>s. NaN) demo_env demo_sockets) demo_events))) ''c''
            = Some conn \<and> webSocket conn = 6"
    by blast
  with restorable_demo fresh_demo run_demo show ?thesis by simp
qed

text \<open>
  C1, as the spec has it, fails on a sequence of four admissions of which the last is
  given the playerId of the first: socket 2 is a key of \<open>wsToPlayer\<close> with a, and the
  entry \<open>connections\<close> holds under a has socket 8.
\<close>

theorem registry_collision_counterexample:
  "Map_get (wsToPlayer lobby_collided) 2 = Some ''a'' \<and>
   Map_get (connections lobby_collided) ''a''
     = Some \<lparr>playerId = ''a'', webSocket = 8, rateLimiter = RateLimiter_new (Fin 60),
             joinedAt = 30\<rparr> \<and>
   \<not> (\<exists>conn. Map_get (connections lobby_collided) ''a'' = Some conn \<and> webSocket conn = 2)"
  by (simp add: lobby_collided_eq Map_get_def)

section \<open>The constructor after a hibernation\<close>










section \<open>The limits read from the environment\<close>

lemma envLimit_ge_1:
  assumes "v = None \<or> (\<exists>s. v = Some s \<and> toNumber s \<noteq> NaN)"
  shows "js_ge (envLimit toNumber v dflt) (Fin 1)"
proof (cases v)
  case None
  then show ?thesis by (simp add: envLimit_def)
next
  case (Some s)
  with assms have "toNumber s \<noteq> NaN" by simp
  with Some show ?thesis by (cases "toNumber s") (simp_all add: envLimit_def)
qed

lemma envLimit_NaN: "toNumber s = NaN \<Longrightarrow> envLimit toNumber (Some s) dflt = NaN"
  by (simp add: envLimit_def)

lemma GameRoom_new_limits:
  "maxMessagesPerSecond (GameRoom_new toNumber env sockets)
     = envLimit toNumber (MAX_MESSAGES_PER_SECOND env) 60"
  "maxPlayersPerRoom (GameRoom_new toNumber env sockets)
     = envLimit toNumber (MAX_PLAYERS_PER_ROOM env) 20"
  by (simp_all add: GameRoom_new_def restore_config)

lemma allow_NaN:
  "maxMessages rl = NaN \<Longrightarrow> fst (allow now rl) \<and> maxMessages (snd (allow now rl)) = NaN"
  by (simp add: allow_def Let_def)

lemma allow_all_NaN:
  "maxMessages rl = NaN \<Longrightarrow> fst (allow_all rl nows) = replicate (length nows) True"
proof (induction nows arbitrary: rl)
  case Nil
  then show ?case by simp
next
  case (Cons now nows)
  from allow_NaN [OF Cons.prems, of now]
  have a: "fst (allow now rl)" and m: "maxMessages (snd (allow now rl)) = NaN"
    by simp_all
  from Cons.IH [OF m] a show ?case by (simp add: split_def)
qed

text \<open>
  C9 fails on the code for a variable that is set and is no number. \<^verbatim>\<open>Number\<close> of such
  a string is \<open>NaN\<close>, and \<^verbatim>\<open>Math.max(1, NaN)\<close> is \<open>NaN\<close>: the capacity of the room is
  \<open>NaN\<close> and \<^verbatim>\<open>fetch\<close> never answers that the room is full; the rate is \<open>NaN\<close>, the
  limiter built for it has capacity \<open>NaN\<close> and allows every call.
\<close>

theorem limit_of_a_non_number:
  assumes "toNumber ''abc'' = NaN"
  shows "maxPlayersPerRoom (GameRoom_new toNumber (env\<lparr>MAX_PLAYERS_PER_ROOM := Some ''abc''\<rparr>) sockets)
           = NaN
       \<and> maxMessagesPerSecond
           (GameRoom_new toNumber (env\<lparr>MAX_MESSAGES_PER_SECOND := Some ''abc''\<rparr>) sockets) = NaN
       \<and> (\<forall>room request client server newId now. maxPlayersPerRoom room = NaN \<longrightarrow>
             status (fst (snd (fetch room request client server newId now))) \<noteq> 503)
       \<and> maxMessages (RateLimiter_new NaN) = NaN
       \<and> (\<forall>nows. fst (allow_all (RateLimiter_new NaN) nows) = replicate (length nows) True)"
proof -
  have m: "maxMessages (RateLimiter_new NaN) = NaN" by (simp add: RateLimiter_new_def)
  have "status (fst (snd (fetch room request client server newId now))) \<noteq> 503"
    if "maxPlayersPerRoom room = NaN" for room request client server newId now
    using that by (simp add: fetch_def Let_def)
  with assms m allow_all_NaN [OF m] show ?thesis
    by (simp add: GameRoom_new_limits envLimit_NaN)
qed

theorem limit_of_a_non_number_witness:
  "(\<lambda>s. NaN) ''abc'' = NaN \<and>
   maxPlayersPerRoom
     (GameRoom_new (\<lambda>s. NaN) (demo_env\<lparr>MAX_PLAYERS_PER_ROOM := Some ''abc''\<rparr>) []) = NaN \<and>
   fst (allow_all (RateLimiter_new NaN) [0, 1, 2]) = [True, True, True]"
proof -
  have h: "(\<lambda>s. NaN) ''abc'' = NaN" by simp
  note t = limit_of_a_non_number [OF h, of demo_env "[]"]
  from t have 1: "maxPlayersPerRoom
     (GameRoom_new (\<lambda>s. NaN) (demo_env\<lparr>MAX_PLAYERS_PER_ROOM := Some ''abc''\<rparr>) []) = NaN"
    by (rule conjunct1)
  from t have "\<forall>nows. fst (allow_all (RateLimiter_new NaN) nows) = replicate (length nows) True"
    by simp
  then have "fst (allow_all (RateLimiter_new NaN) [0, 1, 2]) = replicate (length [0, 1, 2 :: int]) True"
    by (rule spec)
  with 1 show ?thesis by (simp add: numeral_3_eq_3)
qed

end
